theory Spec2Isabelle
  imports Main
begin

section \<open>The options store consumed by the Options Automator\<close>

text \<open>
  The command module \<^verbatim>\<open>sentry/runner/commands/configoptions.py\<close> drives the
  \<^verbatim>\<open>sentry.options\<close> store through \<^verbatim>\<open>get\<close>, \<^verbatim>\<open>set\<close>, \<^verbatim>\<open>delete\<close>,
  \<^verbatim>\<open>isset\<close>, \<^verbatim>\<open>get_last_update_channel\<close>, \<^verbatim>\<open>can_update\<close> and \<^verbatim>\<open>filter\<close>.
  The store module itself is not part of the sources at hand, so it is modelled
  from the specification's description of the interface.
\<close>

text \<open>
  Modelled from the spec: the enumeration \<^verbatim>\<open>options.UpdateChannel\<close>. The
  specification distinguishes the automation channel from every other channel;
  a channel that is not set at all is \<open>None\<close> of \<open>UpdateChannel option\<close>.
\<close>

datatype UpdateChannel = AUTOMATOR | OtherChannel string

text \<open>
  Modelled from the spec: the enumeration \<^verbatim>\<open>options.NotWritableReason\<close>. Only
  \<^verbatim>\<open>DRIFTED\<close> is named by the command; every other member is represented by
  its \<^verbatim>\<open>.value\<close> string.
\<close>

datatype NotWritableReason = DRIFTED | OtherReason string

fun reason_value :: "NotWritableReason \<Rightarrow> string" where
  "reason_value DRIFTED = ''drifted''"
| "reason_value (OtherReason s) = s"

text \<open>
  Modelled from the spec: the store. Each option entry has a key, a current
  value, a last-update channel and a capability flag saying whether it is
  automator-modifiable. A key without a stored row reads as its default value
  and has no channel.
\<close>

record 'v options_store =
  registry :: "(string \<times> bool) list"
  default_of :: "string \<Rightarrow> 'v"
  rows :: "string \<rightharpoonup> ('v \<times> UpdateChannel option)"

definition store_get :: "'v options_store \<Rightarrow> string \<Rightarrow> 'v" where
  "store_get s k = (case rows s k of None \<Rightarrow> default_of s k | Some (v, c) \<Rightarrow> v)"

definition store_isset :: "'v options_store \<Rightarrow> string \<Rightarrow> bool" where
  "store_isset s k = (case rows s k of None \<Rightarrow> False | Some r \<Rightarrow> True)"

definition get_last_update_channel :: "'v options_store \<Rightarrow> string \<Rightarrow> UpdateChannel option" where
  "get_last_update_channel s k = (case rows s k of None \<Rightarrow> None | Some (v, c) \<Rightarrow> c)"

definition store_set :: "string \<Rightarrow> 'v \<Rightarrow> UpdateChannel \<Rightarrow> 'v options_store \<Rightarrow> 'v options_store" where
  "store_set k v ch s = s\<lparr>rows := (rows s)(k \<mapsto> (v, Some ch))\<rparr>"

definition store_delete :: "string \<Rightarrow> 'v options_store \<Rightarrow> 'v options_store" where
  "store_delete k s = s\<lparr>rows := (rows s)(k := None)\<rparr>"

text \<open>\<^verbatim>\<open>options.filter(options.FLAG_AUTOMATOR_MODIFIABLE)\<close>: the names of the eligible options.\<close>

definition filter_automator_modifiable :: "'v options_store \<Rightarrow> string list" where
  "filter_automator_modifiable s = map fst (filter snd (registry s))"

section \<open>The observable world of a run\<close>

text \<open>
  A run changes the store, prints lines through \<^verbatim>\<open>click.echo\<close>, and calls the
  mutating store operations. The calls are recorded in order, with the
  arguments the source passes.
\<close>

datatype 'v store_call = SetCall string 'v bool UpdateChannel | DeleteCall string

record 'v world =
  store :: "'v options_store"
  stdout :: "string list"
  calls :: "'v store_call list"

definition echo :: "string \<Rightarrow> 'v world \<Rightarrow> 'v world" where
  "echo msg w = w\<lparr>stdout := stdout w @ [msg]\<rparr>"

definition options_set :: "string \<Rightarrow> 'v \<Rightarrow> bool \<Rightarrow> UpdateChannel \<Rightarrow> 'v world \<Rightarrow> 'v world" where
  "options_set k v coerce ch w =
     w\<lparr>store := store_set k v ch (store w), calls := calls w @ [SetCall k v coerce ch]\<rparr>"

definition options_delete :: "string \<Rightarrow> 'v world \<Rightarrow> 'v world" where
  "options_delete k w =
     w\<lparr>store := store_delete k (store w), calls := calls w @ [DeleteCall k]\<rparr>"

section \<open>Message templates\<close>

definition DRIFT_MSG :: "string \<Rightarrow> string" where
  "DRIFT_MSG key = ''[DRIFT] Option '' @ key @ '' drifted and cannot be updated.''"

definition CHANNEL_UPDATE_MSG :: "string \<Rightarrow> string" where
  "CHANNEL_UPDATE_MSG key =
     ''[CHANNEL UPDATE] Option '' @ key @ '' value unchanged. Last update channel updated.''"

definition UPDATE_MSG :: "string \<Rightarrow> string" where
  "UPDATE_MSG key = ''[UPDATE] Option '' @ key @ '' updated.''"

definition UNSET_MSG :: "string \<Rightarrow> string" where
  "UNSET_MSG key = ''[UNSET] Option '' @ key @ '' unset.''"

definition DRY_RUN_MSG :: string where
  "DRY_RUN_MSG = ''!!! Dry-run flag on. No update will be performed.''"

section \<open>The reconciler\<close>

definition attempt_update :: "string \<Rightarrow> 'v \<Rightarrow> string set \<Rightarrow> bool \<Rightarrow> 'v world \<Rightarrow> 'v world" where
  "attempt_update key val drifted_options dry_run w =
     (if key \<in> drifted_options then echo (DRIFT_MSG key) w
      else if store_get (store w) key = val then
        (case get_last_update_channel (store w) key of
           None \<Rightarrow>
             echo (UPDATE_MSG key)
               (if \<not> dry_run then options_set key val False AUTOMATOR w else w)
         | Some last_update_channel \<Rightarrow>
             if last_update_channel \<noteq> AUTOMATOR then
               echo (CHANNEL_UPDATE_MSG key)
                 (if \<not> dry_run then options_set key val False AUTOMATOR w else w)
             else w)
      else
        echo (UPDATE_MSG key)
          (if \<not> dry_run then options_set key val False AUTOMATOR w else w))"

section \<open>The command group: loading, path walk and validation\<close>

text \<open>The document produced by \<^verbatim>\<open>yaml.safe_load\<close>; \<open>'a\<close> is the type of scalars.\<close>

datatype 'a yaml = YNull | YScalar 'a | YSeq "'a yaml list" | YMap "(string \<times> 'a yaml) list"

text \<open>
  \<^verbatim>\<open>exit(-1)\<close> raises \<^verbatim>\<open>SystemExit\<close>; calling \<^verbatim>\<open>.get\<close> or \<^verbatim>\<open>.items\<close> on a node
  that is not a mapping raises \<^verbatim>\<open>AttributeError\<close>.
\<close>

datatype error = SystemExit int | AttributeError

text \<open>\<^verbatim>\<open>str.split(sep)\<close> for a one-character separator.\<close>

fun split_on :: "char \<Rightarrow> string \<Rightarrow> string list" where
  "split_on sep [] = [[]]"
| "split_on sep (c # cs) =
     (if c = sep then [] # split_on sep cs
      else (case split_on sep cs of [] \<Rightarrow> [[c]] | p # ps \<Rightarrow> (c # p) # ps))"

text \<open>\<^verbatim>\<open>dict.get(key)\<close>: \<^verbatim>\<open>None\<close> when the key is absent.\<close>

definition dict_get :: "(string \<times> 'a yaml) list \<Rightarrow> string \<Rightarrow> 'a yaml" where
  "dict_get items key = (case map_of items key of None \<Rightarrow> YNull | Some v \<Rightarrow> v)"

definition INVALID_PATH_MSG :: "string \<Rightarrow> string \<Rightarrow> string" where
  "INVALID_PATH_MSG key current_path =
     ''Invalid path. Key '' @ key @ '' not found in /'' @ current_path"

definition INVALID_OPTION_MSG :: "string \<Rightarrow> NotWritableReason \<Rightarrow> string" where
  "INVALID_OPTION_MSG key r =
     ''Invalid option. '' @ key @ '' cannot be updated. Reason '' @ reason_value r"

text \<open>The loop over \<^verbatim>\<open>path_list\<close>.\<close>

fun walk_path :: "string list \<Rightarrow> 'a yaml \<Rightarrow> string \<Rightarrow> 'v world \<Rightarrow> (error + 'a yaml) \<times> 'v world" where
  "walk_path [] options_map current_path w = (Inr options_map, w)"
| "walk_path (key # rest) options_map current_path w =
     (if key = [] then walk_path rest options_map current_path w
      else
        (case options_map of
           YMap items \<Rightarrow>
             (case dict_get items key of
                YNull \<Rightarrow> (Inl (SystemExit (- 1)), echo (INVALID_PATH_MSG key current_path) w)
              | YScalar x \<Rightarrow> walk_path rest (YScalar x) (current_path @ ''/'' @ key) w
              | YSeq xs \<Rightarrow> walk_path rest (YSeq xs) (current_path @ ''/'' @ key) w
              | YMap m \<Rightarrow> walk_path rest (YMap m) (current_path @ ''/'' @ key) w)
         | YNull \<Rightarrow> (Inl AttributeError, w)
         | YScalar x \<Rightarrow> (Inl AttributeError, w)
         | YSeq xs \<Rightarrow> (Inl AttributeError, w)))"

text \<open>
  The permission oracle \<^verbatim>\<open>options.can_update(key, value, channel)\<close> is a parameter:
  it reads the store and answers \<open>None\<close> or a denial reason.
\<close>

type_synonym 'v can_update_fn =
  "'v options_store \<Rightarrow> string \<Rightarrow> 'v \<Rightarrow> UpdateChannel \<Rightarrow> NotWritableReason option"

text \<open>The loop over \<^verbatim>\<open>options_map.items()\<close> that builds \<^verbatim>\<open>drifted_options\<close>.\<close>

fun collect_drifted ::
  "'v can_update_fn \<Rightarrow> (string \<times> 'v) list \<Rightarrow> string set \<Rightarrow> 'v world \<Rightarrow> (error + string set) \<times> 'v world" where
  "collect_drifted can_update [] drifted_options w = (Inr drifted_options, w)"
| "collect_drifted can_update ((key, val) # rest) drifted_options w =
     (case can_update (store w) key val AUTOMATOR of
        None \<Rightarrow> collect_drifted can_update rest drifted_options w
      | Some not_writable_reason \<Rightarrow>
          if not_writable_reason \<noteq> DRIFTED then
            (Inl (SystemExit (- 1)), echo (INVALID_OPTION_MSG key not_writable_reason) w)
          else collect_drifted can_update rest (insert key drifted_options) w)"

text \<open>\<^verbatim>\<open>ctx.obj\<close> as left by the group callback.\<close>

record 'v ctx_obj =
  dry_run :: bool
  options_to_update :: "(string \<times> 'v) list"
  drifted_options :: "string set"

definition configoptions ::
  "('a yaml) can_update_fn \<Rightarrow> bool \<Rightarrow> 'a yaml \<Rightarrow> string \<Rightarrow> ('a yaml) world
     \<Rightarrow> (error + ('a yaml) ctx_obj) \<times> ('a yaml) world" where
  "configoptions can_update dry document path w =
     (case walk_path (split_on (CHR ''/'') path @ [''options'']) document [] w of
        (Inl e, w') \<Rightarrow> (Inl e, w')
      | (Inr options_map, w') \<Rightarrow>
          (case options_map of
             YMap items \<Rightarrow>
               (case collect_drifted can_update items {} w' of
                  (Inl e, w'') \<Rightarrow> (Inl e, w'')
                | (Inr drifted, w'') \<Rightarrow>
                    (Inr \<lparr>dry_run = dry, options_to_update = items, drifted_options = drifted\<rparr>, w''))
           | YNull \<Rightarrow> (Inl AttributeError, w')
           | YScalar x \<Rightarrow> (Inl AttributeError, w')
           | YSeq xs \<Rightarrow> (Inl AttributeError, w')))"

section \<open>The two workflows\<close>

definition announce_dry_run :: "bool \<Rightarrow> 'v world \<Rightarrow> 'v world" where
  "announce_dry_run dry w = (if dry then echo DRY_RUN_MSG w else w)"

definition patch :: "'v ctx_obj \<Rightarrow> 'v world \<Rightarrow> 'v world" where
  "patch ctx w =
     fold (\<lambda>(key, val). attempt_update key val (drifted_options ctx) (dry_run ctx))
       (options_to_update ctx) (announce_dry_run (dry_run ctx) w)"

text \<open>The body of the loop over \<^verbatim>\<open>all_options\<close> in \<^verbatim>\<open>sync\<close>.\<close>

definition sync_option :: "'v ctx_obj \<Rightarrow> string \<Rightarrow> 'v world \<Rightarrow> 'v world" where
  "sync_option ctx name w =
     (case map_of (options_to_update ctx) name of
        Some val \<Rightarrow> attempt_update name val (drifted_options ctx) (dry_run ctx) w
      | None \<Rightarrow>
          if store_isset (store w) name then
            if get_last_update_channel (store w) name = Some AUTOMATOR then
              echo (UNSET_MSG name) (if \<not> dry_run ctx then options_delete name w else w)
            else echo (DRIFT_MSG name) w
          else w)"

definition sync :: "'v ctx_obj \<Rightarrow> 'v world \<Rightarrow> 'v world" where
  "sync ctx w =
     (let w1 = announce_dry_run (dry_run ctx) w;
          all_options = filter_automator_modifiable (store w1)
      in fold (sync_option ctx) all_options w1)"

text \<open>A whole invocation: the group callback, then the subcommand.\<close>

definition run_patch ::
  "('a yaml) can_update_fn \<Rightarrow> bool \<Rightarrow> 'a yaml \<Rightarrow> string \<Rightarrow> ('a yaml) world
     \<Rightarrow> (error + unit) \<times> ('a yaml) world" where
  "run_patch can_update dry document path w =
     (case configoptions can_update dry document path w of
        (Inl e, w') \<Rightarrow> (Inl e, w')
      | (Inr ctx, w') \<Rightarrow> (Inr (), patch ctx w'))"

definition run_sync ::
  "('a yaml) can_update_fn \<Rightarrow> bool \<Rightarrow> 'a yaml \<Rightarrow> string \<Rightarrow> ('a yaml) world
     \<Rightarrow> (error + unit) \<times> ('a yaml) world" where
  "run_sync can_update dry document path w =
     (case configoptions can_update dry document path w of
        (Inl e, w') \<Rightarrow> (Inl e, w')
      | (Inr ctx, w') \<Rightarrow> (Inr (), sync ctx w'))"

section \<open>The effect of one step, as functions of the store\<close>

text \<open>
  Whether the reconciler writes, and which lines it prints, depend only on the
  drift set and on what the store holds for the key. The same holds for the
  body of the loop of \<^verbatim>\<open>sync\<close>.
\<close>

definition reconcile_writes :: "string \<Rightarrow> 'v \<Rightarrow> string set \<Rightarrow> 'v options_store \<Rightarrow> bool" where
  "reconcile_writes key val drifted s =
     (key \<notin> drifted \<and> \<not> (store_get s key = val \<and> get_last_update_channel s key = Some AUTOMATOR))"

definition reconcile_msgs :: "string \<Rightarrow> 'v \<Rightarrow> string set \<Rightarrow> 'v options_store \<Rightarrow> string list" where
  "reconcile_msgs key val drifted s =
     (if key \<in> drifted then [DRIFT_MSG key]
      else if store_get s key = val then
        (case get_last_update_channel s key of
           None \<Rightarrow> [UPDATE_MSG key]
         | Some ch \<Rightarrow> if ch = AUTOMATOR then [] else [CHANNEL_UPDATE_MSG key])
      else [UPDATE_MSG key])"

definition sync_msgs :: "'v ctx_obj \<Rightarrow> 'v options_store \<Rightarrow> string \<Rightarrow> string list" where
  "sync_msgs ctx s name =
     (case map_of (options_to_update ctx) name of
        Some val \<Rightarrow> reconcile_msgs name val (drifted_options ctx) s
      | None \<Rightarrow>
          if store_isset s name then
            if get_last_update_channel s name = Some AUTOMATOR then [UNSET_MSG name]
            else [DRIFT_MSG name]
          else [])"

definition sync_calls :: "'v ctx_obj \<Rightarrow> 'v options_store \<Rightarrow> string \<Rightarrow> 'v store_call list" where
  "sync_calls ctx s name =
     (if dry_run ctx then []
      else
        (case map_of (options_to_update ctx) name of
           Some val \<Rightarrow>
             if reconcile_writes name val (drifted_options ctx) s
             then [SetCall name val False AUTOMATOR] else []
         | None \<Rightarrow>
             if store_isset s name \<and> get_last_update_channel s name = Some AUTOMATOR
             then [DeleteCall name] else []))"


text \<open>
  To speak of what a run does about one option: the key a store call is made
  for, and the four lines that can be printed about a key.
\<close>

fun call_key :: "'v store_call \<Rightarrow> string" where
  "call_key (SetCall key val coerce ch) = key"
| "call_key (DeleteCall key) = key"

definition option_lines :: "string \<Rightarrow> string set" where
  "option_lines key = {DRIFT_MSG key, CHANNEL_UPDATE_MSG key, UPDATE_MSG key, UNSET_MSG key}"

abbreviation patch_loop :: "string set \<Rightarrow> bool \<Rightarrow> (string \<times> 'v) list \<Rightarrow> 'v world \<Rightarrow> 'v world" where
  "patch_loop D dry items w \<equiv> fold (\<lambda>(key, val). attempt_update key val D dry) items w"

section \<open>The scenario of the specification\<close>

text \<open>
  The store has \<open>a\<close> unset, \<open>b = 2\<close> written by the automation channel and
  \<open>c = 5\<close> written by another channel; all three are automator-modifiable. The
  input document holds \<open>a: 1\<close> and \<open>b: 2\<close> under its \<open>options\<close> key.
\<close>

definition scenario_store :: "(int yaml) options_store" where
  "scenario_store =
     \<lparr>registry = [(''a'', True), (''b'', True), (''c'', True)],
      default_of = (\<lambda>k. YNull),
      rows = [''b'' \<mapsto> (YScalar 2, Some AUTOMATOR),
              ''c'' \<mapsto> (YScalar 5, Some (OtherChannel ''cli''))]\<rparr>"

definition scenario_world :: "(int yaml) world" where
  "scenario_world = \<lparr>store = scenario_store, stdout = [], calls = []\<rparr>"

definition scenario_items :: "(string \<times> int yaml) list" where
  "scenario_items = [(''a'', YScalar 1), (''b'', YScalar 2)]"

definition scenario_document :: "int yaml" where
  "scenario_document = YMap [(''options'', YMap scenario_items)]"

definition scenario_ctx :: "(int yaml) ctx_obj" where
  "scenario_ctx = \<lparr>dry_run = False, options_to_update = scenario_items, drifted_options = {}\<rparr>"

text \<open>The same run with an input document that holds \<open>a: 1\<close> only.\<close>

definition only_a_ctx :: "(int yaml) ctx_obj" where
  "only_a_ctx = \<lparr>dry_run = False, options_to_update = [(''a'', YScalar 1)], drifted_options = {}\<rparr>"

section \<open>The reconciler's decision table\<close>

lemmas store_defs =
  store_get_def store_isset_def get_last_update_channel_def store_set_def store_delete_def

lemmas world_defs = echo_def options_set_def options_delete_def

text \<open>
  C1. For a key in the drift set the reconciler changes neither the store nor
  the list of store calls, whatever the dry-run flag, the desired value and the
  stored value are, and it prints exactly the drift message for that key.
\<close>

theorem drifted_key_skipped:
  assumes "key \<in> drifted"
  shows "store (attempt_update key val drifted dry w) = store w
       \<and> calls (attempt_update key val drifted dry w) = calls w
       \<and> stdout (attempt_update key val drifted dry w) = stdout w @ [DRIFT_MSG key]"
  using assms by (simp add: attempt_update_def echo_def)

theorem drifted_key_skipped_witness:
  "''c'' \<in> {''c''}
   \<and> store (attempt_update ''c'' (YScalar 7) {''c''} False scenario_world) = store scenario_world
   \<and> calls (attempt_update ''c'' (YScalar 7) {''c''} False scenario_world) = calls scenario_world
   \<and> stdout (attempt_update ''c'' (YScalar 7) {''c''} False scenario_world)
       = [''[DRIFT] Option c drifted and cannot be updated.'']"
  using drifted_key_skipped [of "''c''" "{''c''}" "YScalar 7" False scenario_world]
  by (simp add: scenario_world_def DRIFT_MSG_def)

text \<open>
  C2. For a key outside the drift set whose stored value equals the desired
  value and whose last-update channel is unset, the reconciler prints the
  update message and, unless the run is dry, calls
  \<^verbatim>\<open>options.set(key, value, coerce=False, channel=AUTOMATOR)\<close>: the value read
  back is the same as before and the channel becomes the automation channel.
\<close>

theorem equal_value_unset_channel_stamped:
  assumes "key \<notin> drifted"
    and "store_get (store w) key = val"
    and "get_last_update_channel (store w) key = None"
  shows "stdout (attempt_update key val drifted dry w) = stdout w @ [UPDATE_MSG key]
       \<and> calls (attempt_update key val drifted dry w)
           = (if dry then calls w else calls w @ [SetCall key val False AUTOMATOR])
       \<and> store (attempt_update key val drifted dry w)
           = (if dry then store w else store_set key val AUTOMATOR (store w))
       \<and> store_get (store (attempt_update key val drifted dry w)) key = store_get (store w) key
       \<and> get_last_update_channel (store (attempt_update key val drifted dry w)) key
           = (if dry then None else Some AUTOMATOR)"
  using assms by (simp add: attempt_update_def world_defs store_defs)

theorem equal_value_unset_channel_stamped_witness:
  "''a'' \<notin> {''c''}
   \<and> store_get (store scenario_world) ''a'' = YNull
   \<and> get_last_update_channel (store scenario_world) ''a'' = None
   \<and> stdout (attempt_update ''a'' YNull {''c''} False scenario_world) = [''[UPDATE] Option a updated.'']
   \<and> calls (attempt_update ''a'' YNull {''c''} False scenario_world) = [SetCall ''a'' YNull False AUTOMATOR]
   \<and> get_last_update_channel (store (attempt_update ''a'' YNull {''c''} False scenario_world)) ''a''
       = Some AUTOMATOR"
  using equal_value_unset_channel_stamped [of "''a''" "{''c''}" scenario_world YNull False]
  by (simp add: scenario_world_def scenario_store_def store_defs UPDATE_MSG_def)

text \<open>
  C3. For a key outside the drift set whose stored value equals the desired
  value and whose last-update channel is set to a channel other than the
  automation channel, the reconciler prints the channel-update message and,
  unless the run is dry, stamps the automation channel; the value read back
  is unchanged.
\<close>

theorem equal_value_foreign_channel_restamped:
  assumes "key \<notin> drifted"
    and "store_get (store w) key = val"
    and "get_last_update_channel (store w) key = Some ch"
    and "ch \<noteq> AUTOMATOR"
  shows "stdout (attempt_update key val drifted dry w) = stdout w @ [CHANNEL_UPDATE_MSG key]
       \<and> calls (attempt_update key val drifted dry w)
           = (if dry then calls w else calls w @ [SetCall key val False AUTOMATOR])
       \<and> store (attempt_update key val drifted dry w)
           = (if dry then store w else store_set key val AUTOMATOR (store w))
       \<and> store_get (store (attempt_update key val drifted dry w)) key = store_get (store w) key
       \<and> get_last_update_channel (store (attempt_update key val drifted dry w)) key
           = (if dry then Some ch else Some AUTOMATOR)"
  using assms by (simp add: attempt_update_def world_defs store_defs)

theorem equal_value_foreign_channel_restamped_witness:
  "''c'' \<notin> ({} :: string set)
   \<and> store_get (store scenario_world) ''c'' = YScalar 5
   \<and> get_last_update_channel (store scenario_world) ''c'' = Some (OtherChannel ''cli'')
   \<and> OtherChannel ''cli'' \<noteq> AUTOMATOR
   \<and> stdout (attempt_update ''c'' (YScalar 5) {} False scenario_world)
       = [''[CHANNEL UPDATE] Option c value unchanged. Last update channel updated.'']
   \<and> calls (attempt_update ''c'' (YScalar 5) {} False scenario_world)
       = [SetCall ''c'' (YScalar 5) False AUTOMATOR]
   \<and> store_get (store (attempt_update ''c'' (YScalar 5) {} False scenario_world)) ''c'' = YScalar 5
   \<and> get_last_update_channel (store (attempt_update ''c'' (YScalar 5) {} False scenario_world)) ''c''
       = Some AUTOMATOR"
  using equal_value_foreign_channel_restamped
    [of "''c''" "{}" scenario_world "YScalar 5" "OtherChannel ''cli''" False]
  by (simp add: scenario_world_def scenario_store_def store_defs CHANNEL_UPDATE_MSG_def)

text \<open>
  C4. For a key outside the drift set whose stored value differs from the
  desired value, the reconciler prints the update message and, unless the run
  is dry, writes the desired value with the automation channel: afterwards the
  store reads the desired value and the automation channel for that key.
\<close>

theorem different_value_written:
  assumes "key \<notin> drifted"
    and "store_get (store w) key \<noteq> val"
  shows "stdout (attempt_update key val drifted dry w) = stdout w @ [UPDATE_MSG key]
       \<and> calls (attempt_update key val drifted dry w)
           = (if dry then calls w else calls w @ [SetCall key val False AUTOMATOR])
       \<and> store (attempt_update key val drifted dry w)
           = (if dry then store w else store_set key val AUTOMATOR (store w))
       \<and> store_get (store (attempt_update key val drifted dry w)) key
           = (if dry then store_get (store w) key else val)
       \<and> get_last_update_channel (store (attempt_update key val drifted dry w)) key
           = (if dry then get_last_update_channel (store w) key else Some AUTOMATOR)"
  using assms by (simp add: attempt_update_def world_defs store_defs)

theorem different_value_written_witness:
  "''a'' \<notin> ({} :: string set)
   \<and> store_get (store scenario_world) ''a'' \<noteq> YScalar 1
   \<and> stdout (attempt_update ''a'' (YScalar 1) {} False scenario_world) = [''[UPDATE] Option a updated.'']
   \<and> calls (attempt_update ''a'' (YScalar 1) {} False scenario_world)
       = [SetCall ''a'' (YScalar 1) False AUTOMATOR]
   \<and> store_get (store (attempt_update ''a'' (YScalar 1) {} False scenario_world)) ''a'' = YScalar 1
   \<and> get_last_update_channel (store (attempt_update ''a'' (YScalar 1) {} False scenario_world)) ''a''
       = Some AUTOMATOR"
  using different_value_written [of "''a''" "{}" scenario_world "YScalar 1" False]
  by (simp add: scenario_world_def scenario_store_def store_defs UPDATE_MSG_def)

section \<open>Steps and loops\<close>

lemma attempt_update_stdout:
  "stdout (attempt_update key val D dry w) = stdout w @ reconcile_msgs key val D (store w)"
  by (simp add: attempt_update_def reconcile_msgs_def world_defs split: option.splits)

lemma attempt_update_calls:
  "calls (attempt_update key val D dry w) =
     calls w @ (if reconcile_writes key val D (store w) \<and> \<not> dry
                then [SetCall key val False AUTOMATOR] else [])"
  by (auto simp add: attempt_update_def reconcile_writes_def world_defs split: option.splits)

lemma attempt_update_store:
  "store (attempt_update key val D dry w) =
     (if reconcile_writes key val D (store w) \<and> \<not> dry
      then store_set key val AUTOMATOR (store w) else store w)"
  by (auto simp add: attempt_update_def reconcile_writes_def world_defs split: option.splits)

lemma reconcile_msgs_local:
  "rows s1 k = rows s2 k \<Longrightarrow> default_of s1 k = default_of s2 k
   \<Longrightarrow> reconcile_msgs k v D s1 = reconcile_msgs k v D s2"
  by (cases "rows s2 k") (simp_all add: reconcile_msgs_def store_defs)

lemma reconcile_writes_local:
  "rows s1 k = rows s2 k \<Longrightarrow> default_of s1 k = default_of s2 k
   \<Longrightarrow> reconcile_writes k v D s1 = reconcile_writes k v D s2"
  by (cases "rows s2 k") (simp_all add: reconcile_writes_def store_defs)

lemma attempt_update_rows_other:
  "k \<noteq> key \<Longrightarrow> rows (store (attempt_update key val D dry w)) k = rows (store w) k"
  by (simp add: attempt_update_store store_set_def)

lemma attempt_update_default_of:
  "default_of (store (attempt_update key val D dry w)) = default_of (store w)"
  by (simp add: attempt_update_store store_set_def)

lemma attempt_update_registry:
  "registry (store (attempt_update key val D dry w)) = registry (store w)"
  by (simp add: attempt_update_store store_set_def)

lemma patch_loop_rows_other:
  "k \<notin> fst ` set items \<Longrightarrow> rows (store (patch_loop D dry items w)) k = rows (store w) k"
  by (induction items arbitrary: w) (auto simp: attempt_update_rows_other)

lemma patch_loop_default_of:
  "default_of (store (patch_loop D dry items w)) = default_of (store w)"
  by (induction items arbitrary: w) (auto simp: attempt_update_default_of)

lemma patch_loop_registry:
  "registry (store (patch_loop D dry items w)) = registry (store w)"
  by (induction items arbitrary: w) (auto simp: attempt_update_registry)

lemma patch_loop_dry_store: "store (patch_loop D True items w) = store w"
  by (induction items arbitrary: w) (auto simp: attempt_update_store)

lemma patch_loop_dry_calls: "calls (patch_loop D True items w) = calls w"
  by (induction items arbitrary: w) (auto simp: attempt_update_calls)

lemma patch_loop_dry_stdout:
  "stdout (patch_loop D True items w) =
     stdout w @ concat (map (\<lambda>(key, val). reconcile_msgs key val D (store w)) items)"
  by (induction items arbitrary: w) (auto simp: attempt_update_stdout attempt_update_store)

lemma patch_loop_stdout:
  "distinct (map fst items) \<Longrightarrow>
   stdout (patch_loop D dry items w) =
     stdout w @ concat (map (\<lambda>(key, val). reconcile_msgs key val D (store w)) items)"
proof (induction items arbitrary: w)
  case Nil
  then show ?case by simp
next
  case (Cons kv items)
  obtain key val where kv: "kv = (key, val)" by (cases kv)
  let ?w1 = "attempt_update key val D dry w"
  have same: "reconcile_msgs k v D (store ?w1) = reconcile_msgs k v D (store w)"
    if "(k, v) \<in> set items" for k v
  proof -
    from that Cons.prems kv have "k \<noteq> key" by force
    then show ?thesis
      by (intro reconcile_msgs_local) (simp_all add: attempt_update_rows_other attempt_update_default_of)
  qed
  have "map (\<lambda>(key, val). reconcile_msgs key val D (store ?w1)) items
      = map (\<lambda>(key, val). reconcile_msgs key val D (store w)) items"
    by (rule map_cong) (auto simp: same)
  with Cons.IH [of ?w1] Cons.prems kv show ?case
    by (simp add: attempt_update_stdout)
qed


lemma sync_option_stdout:
  "stdout (sync_option ctx name w) = stdout w @ sync_msgs ctx (store w) name"
  by (simp add: sync_option_def sync_msgs_def attempt_update_stdout world_defs split: option.splits)

lemma sync_option_calls:
  "calls (sync_option ctx name w) = calls w @ sync_calls ctx (store w) name"
  by (simp add: sync_option_def sync_calls_def attempt_update_calls world_defs split: option.splits)

lemma sync_option_rows_other:
  "k \<noteq> name \<Longrightarrow> rows (store (sync_option ctx name w)) k = rows (store w) k"
  by (simp add: sync_option_def attempt_update_rows_other world_defs store_delete_def
      split: option.splits)

lemma sync_option_default_of:
  "default_of (store (sync_option ctx name w)) = default_of (store w)"
  by (simp add: sync_option_def attempt_update_default_of world_defs store_delete_def
      split: option.splits)


lemma sync_option_dry_store:
  "dry_run ctx \<Longrightarrow> store (sync_option ctx name w) = store w"
  by (simp add: sync_option_def attempt_update_store world_defs split: option.splits)

lemma sync_msgs_local:
  "rows s1 k = rows s2 k \<Longrightarrow> default_of s1 k = default_of s2 k
   \<Longrightarrow> sync_msgs ctx s1 k = sync_msgs ctx s2 k"
  by (simp add: sync_msgs_def store_isset_def get_last_update_channel_def
      reconcile_msgs_local [of s1 k s2] split: option.splits)

lemma sync_loop_rows_other:
  "k \<notin> set names \<Longrightarrow> rows (store (fold (sync_option ctx) names w)) k = rows (store w) k"
  by (induction names arbitrary: w) (auto simp: sync_option_rows_other)


lemma sync_loop_dry_store:
  "dry_run ctx \<Longrightarrow> store (fold (sync_option ctx) names w) = store w"
  by (induction names arbitrary: w) (auto simp: sync_option_dry_store)

lemma sync_loop_dry_calls:
  "dry_run ctx \<Longrightarrow> calls (fold (sync_option ctx) names w) = calls w"
  by (induction names arbitrary: w) (auto simp: sync_option_calls sync_calls_def)

lemma sync_loop_stdout:
  "distinct names \<Longrightarrow>
   stdout (fold (sync_option ctx) names w) = stdout w @ concat (map (sync_msgs ctx (store w)) names)"
proof (induction names arbitrary: w)
  case Nil
  then show ?case by simp
next
  case (Cons name names)
  let ?w1 = "sync_option ctx name w"
  have "sync_msgs ctx (store ?w1) k = sync_msgs ctx (store w) k" if "k \<in> set names" for k
  proof -
    from that Cons.prems have "k \<noteq> name" by auto
    then show ?thesis
      by (intro sync_msgs_local) (simp_all add: sync_option_rows_other sync_option_default_of)
  qed
  then have "map (sync_msgs ctx (store ?w1)) names = map (sync_msgs ctx (store w)) names"
    by simp
  with Cons.IH [of ?w1] Cons.prems show ?case
    by (simp add: sync_option_stdout)
qed

lemma sync_msgs_dry_run_irrelevant:
  "sync_msgs (ctx\<lparr>dry_run := b\<rparr>) = sync_msgs ctx"
  by (intro ext) (simp add: sync_msgs_def split: option.splits)

lemma configoptions_dry_run_flag:
  "configoptions can_update dry document path w =
     (case configoptions can_update False document path w of
        (Inl e, w') \<Rightarrow> (Inl e, w')
      | (Inr ctx, w') \<Rightarrow> (Inr (ctx\<lparr>dry_run := dry\<rparr>), w'))"
  by (simp add: configoptions_def split: prod.splits sum.splits yaml.splits)

lemma attempt_update_isset:
  "store_isset (store w) k \<Longrightarrow> store_isset (store (attempt_update key val D dry w)) k"
  by (simp add: attempt_update_store store_defs)

lemma patch_loop_isset:
  "store_isset (store w) k \<Longrightarrow> store_isset (store (patch_loop D dry items w)) k"
  by (induction items arbitrary: w) (auto simp: attempt_update_isset)

lemma patch_loop_calls:
  "\<exists>new. calls (patch_loop D dry items w) = calls w @ new
       \<and> (\<forall>c \<in> set new. \<exists>key val. c = SetCall key val False AUTOMATOR \<and> (key, val) \<in> set items)"
proof (induction items arbitrary: w)
  case Nil
  then show ?case by simp
next
  case (Cons kv items)
  obtain key val where kv: "kv = (key, val)" by (cases kv)
  let ?w1 = "attempt_update key val D dry w"
  from Cons.IH [of ?w1] obtain new where
    new: "calls (patch_loop D dry items ?w1) = calls ?w1 @ new"
      "\<forall>c \<in> set new. \<exists>key val. c = SetCall key val False AUTOMATOR \<and> (key, val) \<in> set items"
    by blast
  let ?step = "if reconcile_writes key val D (store w) \<and> \<not> dry
               then [SetCall key val False AUTOMATOR] else []"
  have "calls (patch_loop D dry (kv # items) w) = calls w @ (?step @ new)"
    using new(1) kv by (simp add: attempt_update_calls)
  moreover have "\<forall>c \<in> set (?step @ new).
      \<exists>k v. c = SetCall k v False AUTOMATOR \<and> (k, v) \<in> set (kv # items)"
    using new(2) kv by auto
  ultimately show ?case by blast
qed

lemma sync_option_absent_rows:
  "map_of (options_to_update ctx) name = None \<Longrightarrow>
   rows (store (sync_option ctx name w)) name = rows (store w) name
   \<or> rows (store (sync_option ctx name w)) name = None"
  by (simp add: sync_option_def world_defs store_delete_def)

lemma sync_loop_calls:
  assumes "\<forall>n. map_of (options_to_update ctx) n = None
             \<longrightarrow> rows (store w) n = rows s0 n \<or> rows (store w) n = None"
  shows "\<exists>new. calls (fold (sync_option ctx) names w) = calls w @ new
       \<and> (\<forall>c \<in> set new.
            (\<exists>key val. c = SetCall key val False AUTOMATOR
                \<and> map_of (options_to_update ctx) key = Some val \<and> key \<in> set names)
          \<or> (\<exists>key. c = DeleteCall key \<and> key \<in> set names
                \<and> map_of (options_to_update ctx) key = None
                \<and> store_isset s0 key \<and> get_last_update_channel s0 key = Some AUTOMATOR))"
  using assms
proof (induction names arbitrary: w)
  case Nil
  then show ?case by simp
next
  case (Cons name names)
  let ?w1 = "sync_option ctx name w"
  have inv1: "\<forall>n. map_of (options_to_update ctx) n = None
             \<longrightarrow> rows (store ?w1) n = rows s0 n \<or> rows (store ?w1) n = None"
  proof (intro allI impI)
    fix n assume n: "map_of (options_to_update ctx) n = None"
    show "rows (store ?w1) n = rows s0 n \<or> rows (store ?w1) n = None"
    proof (cases "n = name")
      case True
      from n True have a: "map_of (options_to_update ctx) name = None" by simp
      have "rows (store w) name = rows s0 name \<or> rows (store w) name = None"
        by (rule Cons.prems [rule_format, OF a])
      with sync_option_absent_rows [OF a, of w] True show ?thesis by metis
    next
      case False
      with n Cons.prems show ?thesis by (simp add: sync_option_rows_other)
    qed
  qed
  from Cons.IH [OF inv1] obtain new where
    new: "calls (fold (sync_option ctx) names ?w1) = calls ?w1 @ new"
      "\<forall>c \<in> set new.
            (\<exists>key val. c = SetCall key val False AUTOMATOR
                \<and> map_of (options_to_update ctx) key = Some val \<and> key \<in> set names)
          \<or> (\<exists>key. c = DeleteCall key \<and> key \<in> set names
                \<and> map_of (options_to_update ctx) key = None
                \<and> store_isset s0 key \<and> get_last_update_channel s0 key = Some AUTOMATOR)"
    by blast
  let ?step = "sync_calls ctx (store w) name"
  have step: "\<forall>c \<in> set ?step.
            (\<exists>val. c = SetCall name val False AUTOMATOR
                \<and> map_of (options_to_update ctx) name = Some val)
          \<or> (c = DeleteCall name
                \<and> map_of (options_to_update ctx) name = None
                \<and> store_isset s0 name \<and> get_last_update_channel s0 name = Some AUTOMATOR)"
  proof (cases "map_of (options_to_update ctx) name")
    case None
    have "rows (store w) name = rows s0 name \<or> rows (store w) name = None"
      by (rule Cons.prems [rule_format, OF None])
    with None show ?thesis
      by (auto simp: sync_calls_def store_isset_def get_last_update_channel_def
          split: option.splits if_splits)
  next
    case (Some val)
    then show ?thesis by (simp add: sync_calls_def)
  qed
  have "calls (fold (sync_option ctx) (name # names) w) = calls w @ (?step @ new)"
    using new(1) by (simp add: sync_option_calls)
  moreover have "\<forall>c \<in> set (?step @ new).
            (\<exists>key val. c = SetCall key val False AUTOMATOR
                \<and> map_of (options_to_update ctx) key = Some val \<and> key \<in> set (name # names))
          \<or> (\<exists>key. c = DeleteCall key \<and> key \<in> set (name # names)
                \<and> map_of (options_to_update ctx) key = None
                \<and> store_isset s0 key \<and> get_last_update_channel s0 key = Some AUTOMATOR)"
  proof
    fix c assume "c \<in> set (?step @ new)"
    then consider "c \<in> set ?step" | "c \<in> set new" by auto
    then show "(\<exists>key val. c = SetCall key val False AUTOMATOR
                \<and> map_of (options_to_update ctx) key = Some val \<and> key \<in> set (name # names))
          \<or> (\<exists>key. c = DeleteCall key \<and> key \<in> set (name # names)
                \<and> map_of (options_to_update ctx) key = None
                \<and> store_isset s0 key \<and> get_last_update_channel s0 key = Some AUTOMATOR)"
    proof cases
      case 1
      with step show ?thesis by fastforce
    next
      case 2
      with new(2) show ?thesis by fastforce
    qed
  qed
  ultimately show ?case by blast
qed

section \<open>The workflows\<close>

lemmas scenario_defs =
  scenario_ctx_def only_a_ctx_def scenario_world_def scenario_store_def scenario_items_def

lemmas run_defs =
  patch_def sync_def sync_option_def announce_dry_run_def attempt_update_def
  filter_automator_modifiable_def

lemmas msg_defs = DRIFT_MSG_def CHANNEL_UPDATE_MSG_def UPDATE_MSG_def UNSET_MSG_def DRY_RUN_MSG_def

text \<open>
  C8. A dry run prints the same per-key lines as the real run from the same
  store, after its one-line banner, and leaves the store and the list of store
  calls as they were. This holds for \<^verbatim>\<open>patch\<close> and for \<^verbatim>\<open>sync\<close>. The input
  document is a dictionary and the registry is keyed by option name, so neither
  holds a key twice.
\<close>

theorem dry_run_same_messages_no_mutation:
  assumes "distinct (map fst (options_to_update ctx))"
    and "distinct (filter_automator_modifiable (store w))"
  shows "(\<exists>msgs. stdout (patch (ctx\<lparr>dry_run := False\<rparr>) w) = stdout w @ msgs
              \<and> stdout (patch (ctx\<lparr>dry_run := True\<rparr>) w) = stdout w @ DRY_RUN_MSG # msgs)
       \<and> store (patch (ctx\<lparr>dry_run := True\<rparr>) w) = store w
       \<and> calls (patch (ctx\<lparr>dry_run := True\<rparr>) w) = calls w
       \<and> (\<exists>msgs. stdout (sync (ctx\<lparr>dry_run := False\<rparr>) w) = stdout w @ msgs
              \<and> stdout (sync (ctx\<lparr>dry_run := True\<rparr>) w) = stdout w @ DRY_RUN_MSG # msgs)
       \<and> store (sync (ctx\<lparr>dry_run := True\<rparr>) w) = store w
       \<and> calls (sync (ctx\<lparr>dry_run := True\<rparr>) w) = calls w"
proof -
  let ?items = "options_to_update ctx"
  let ?D = "drifted_options ctx"
  let ?names = "filter_automator_modifiable (store w)"
  have p: "\<exists>msgs. stdout (patch (ctx\<lparr>dry_run := False\<rparr>) w) = stdout w @ msgs
              \<and> stdout (patch (ctx\<lparr>dry_run := True\<rparr>) w) = stdout w @ DRY_RUN_MSG # msgs"
    using assms(1)
    by (simp add: patch_def announce_dry_run_def patch_loop_stdout world_defs)
  have ps: "store (patch (ctx\<lparr>dry_run := True\<rparr>) w) = store w"
    by (simp add: patch_def announce_dry_run_def patch_loop_dry_store world_defs)
  have pc: "calls (patch (ctx\<lparr>dry_run := True\<rparr>) w) = calls w"
    by (simp add: patch_def announce_dry_run_def patch_loop_dry_calls world_defs)
  have s: "\<exists>msgs. stdout (sync (ctx\<lparr>dry_run := False\<rparr>) w) = stdout w @ msgs
              \<and> stdout (sync (ctx\<lparr>dry_run := True\<rparr>) w) = stdout w @ DRY_RUN_MSG # msgs"
    using assms(2)
    by (simp add: sync_def announce_dry_run_def sync_loop_stdout sync_msgs_dry_run_irrelevant
        world_defs)
  have ss: "store (sync (ctx\<lparr>dry_run := True\<rparr>) w) = store w"
    by (simp add: sync_def announce_dry_run_def sync_loop_dry_store world_defs)
  have sc: "calls (sync (ctx\<lparr>dry_run := True\<rparr>) w) = calls w"
    by (simp add: sync_def announce_dry_run_def sync_loop_dry_calls world_defs)
  from p ps pc s ss sc show ?thesis by blast
qed



theorem dry_run_same_messages_no_mutation_witness:
  "distinct (map fst (options_to_update scenario_ctx))
   \<and> distinct (filter_automator_modifiable (store scenario_world))
   \<and> stdout (sync (scenario_ctx\<lparr>dry_run := False\<rparr>) scenario_world)
       = [''[UPDATE] Option a updated.'', ''[DRIFT] Option c drifted and cannot be updated.'']
   \<and> stdout (sync (scenario_ctx\<lparr>dry_run := True\<rparr>) scenario_world)
       = [''!!! Dry-run flag on. No update will be performed.'',
          ''[UPDATE] Option a updated.'', ''[DRIFT] Option c drifted and cannot be updated.'']
   \<and> store (sync (scenario_ctx\<lparr>dry_run := True\<rparr>) scenario_world) = store scenario_world
   \<and> calls (sync (scenario_ctx\<lparr>dry_run := True\<rparr>) scenario_world) = []
   \<and> store (patch (scenario_ctx\<lparr>dry_run := True\<rparr>) scenario_world) = store scenario_world
   \<and> calls (patch (scenario_ctx\<lparr>dry_run := True\<rparr>) scenario_world) = []"
proof -
  have d1: "distinct (map fst (options_to_update scenario_ctx))"
    by (simp add: scenario_defs)
  have d2: "distinct (filter_automator_modifiable (store scenario_world))"
    by (simp add: scenario_defs filter_automator_modifiable_def)
  have real: "stdout (sync (scenario_ctx\<lparr>dry_run := False\<rparr>) scenario_world)
       = [''[UPDATE] Option a updated.'', ''[DRIFT] Option c drifted and cannot be updated.'']"
    by (simp add: scenario_defs run_defs store_defs world_defs msg_defs)
  have dry: "stdout (sync (scenario_ctx\<lparr>dry_run := True\<rparr>) scenario_world)
       = [''!!! Dry-run flag on. No update will be performed.'',
          ''[UPDATE] Option a updated.'', ''[DRIFT] Option c drifted and cannot be updated.'']"
    by (simp add: scenario_defs run_defs store_defs world_defs msg_defs)
  have c0: "calls scenario_world = []" by (simp add: scenario_defs)
  from dry_run_same_messages_no_mutation [OF d1 d2] d1 d2 real dry c0 show ?thesis
    by simp
qed

text \<open>
  C9. The only store calls of \<^verbatim>\<open>patch\<close> are
  \<^verbatim>\<open>options.set(key, value, coerce=False, channel=AUTOMATOR)\<close> for pairs of the input
  document; \<^verbatim>\<open>options.delete\<close> is never called, an option that is set stays set,
  and the rows of keys outside the input document are untouched.
\<close>

theorem patch_never_deletes:
  "(\<exists>new. calls (patch ctx w) = calls w @ new
       \<and> (\<forall>c \<in> set new. \<exists>key val. c = SetCall key val False AUTOMATOR
                                  \<and> (key, val) \<in> set (options_to_update ctx))
       \<and> (\<forall>key. DeleteCall key \<notin> set new))
   \<and> (\<forall>key. store_isset (store w) key \<longrightarrow> store_isset (store (patch ctx w)) key)
   \<and> (\<forall>key. key \<notin> fst ` set (options_to_update ctx)
              \<longrightarrow> rows (store (patch ctx w)) key = rows (store w) key)"
proof -
  let ?w0 = "announce_dry_run (dry_run ctx) w"
  have w0: "store ?w0 = store w" "calls ?w0 = calls w"
    by (simp_all add: announce_dry_run_def echo_def)
  obtain new where new: "calls (patch ctx w) = calls w @ new"
    "\<forall>c \<in> set new. \<exists>key val. c = SetCall key val False AUTOMATOR
                                  \<and> (key, val) \<in> set (options_to_update ctx)"
    using patch_loop_calls [of "drifted_options ctx" "dry_run ctx" "options_to_update ctx" ?w0]
    by (auto simp: patch_def w0)
  from new(2) have "\<forall>key. DeleteCall key \<notin> set new" by auto
  moreover have "\<forall>key. store_isset (store w) key \<longrightarrow> store_isset (store (patch ctx w)) key"
    using patch_loop_isset [of ?w0] by (simp add: patch_def w0)
  moreover have "\<forall>key. key \<notin> fst ` set (options_to_update ctx)
              \<longrightarrow> rows (store (patch ctx w)) key = rows (store w) key"
    using patch_loop_rows_other [of _ "options_to_update ctx" "drifted_options ctx" "dry_run ctx" ?w0]
    by (simp add: patch_def w0)
  ultimately show ?thesis using new by blast
qed


theorem patch_never_deletes_witness:
  "calls (patch scenario_ctx scenario_world) = [SetCall ''a'' (YScalar 1) False AUTOMATOR]
   \<and> store_isset (store scenario_world) ''c''
   \<and> store_isset (store (patch scenario_ctx scenario_world)) ''c''
   \<and> ''c'' \<notin> fst ` set (options_to_update scenario_ctx)
   \<and> rows (store (patch scenario_ctx scenario_world)) ''c'' = rows (store scenario_world) ''c''"
proof -
  have run: "calls (patch scenario_ctx scenario_world) = [SetCall ''a'' (YScalar 1) False AUTOMATOR]"
    by (simp add: scenario_defs run_defs store_defs world_defs)
  have isset: "store_isset (store scenario_world) ''c''"
    by (simp add: scenario_defs store_defs)
  have absent: "''c'' \<notin> fst ` set (options_to_update scenario_ctx)"
    by (simp add: scenario_defs)
  from patch_never_deletes [of scenario_ctx scenario_world] isset absent
  have "store_isset (store (patch scenario_ctx scenario_world)) ''c''"
    and "rows (store (patch scenario_ctx scenario_world)) ''c'' = rows (store scenario_world) ''c''"
    by blast+
  with run isset absent show ?thesis by simp
qed

text \<open>
  C10. Every store call of either workflow carries the automation channel:
  each write is \<^verbatim>\<open>options.set(key, value, coerce=False, channel=AUTOMATOR)\<close> for a
  key of the input document with the document's value, and the only other call
  is \<^verbatim>\<open>options.delete\<close> in \<^verbatim>\<open>sync\<close>, for an eligible key that is absent from the
  input, is set, and whose last-update channel at the start of the run is the
  automation channel.
\<close>

theorem every_mutation_uses_automator_channel:
  "(\<exists>new. calls (patch ctx w) = calls w @ new
       \<and> (\<forall>c \<in> set new. \<exists>key val. c = SetCall key val False AUTOMATOR
                                  \<and> (key, val) \<in> set (options_to_update ctx)))
   \<and> (\<exists>new. calls (sync ctx w) = calls w @ new
       \<and> (\<forall>c \<in> set new.
            (\<exists>key val. c = SetCall key val False AUTOMATOR
                \<and> map_of (options_to_update ctx) key = Some val
                \<and> key \<in> set (filter_automator_modifiable (store w)))
          \<or> (\<exists>key. c = DeleteCall key
                \<and> key \<in> set (filter_automator_modifiable (store w))
                \<and> map_of (options_to_update ctx) key = None
                \<and> store_isset (store w) key
                \<and> get_last_update_channel (store w) key = Some AUTOMATOR)))"
proof -
  let ?w0 = "announce_dry_run (dry_run ctx) w"
  have w0: "store ?w0 = store w" "calls ?w0 = calls w"
    by (simp_all add: announce_dry_run_def echo_def)
  have p: "\<exists>new. calls (patch ctx w) = calls w @ new
       \<and> (\<forall>c \<in> set new. \<exists>key val. c = SetCall key val False AUTOMATOR
                                  \<and> (key, val) \<in> set (options_to_update ctx))"
    using patch_loop_calls [of "drifted_options ctx" "dry_run ctx" "options_to_update ctx" ?w0]
    by (simp add: patch_def w0)
  have "\<forall>n. map_of (options_to_update ctx) n = None
             \<longrightarrow> rows (store ?w0) n = rows (store w) n \<or> rows (store ?w0) n = None"
    by (simp add: w0)
  from sync_loop_calls [OF this, of "filter_automator_modifiable (store w)"]
  have s: "\<exists>new. calls (sync ctx w) = calls w @ new
       \<and> (\<forall>c \<in> set new.
            (\<exists>key val. c = SetCall key val False AUTOMATOR
                \<and> map_of (options_to_update ctx) key = Some val
                \<and> key \<in> set (filter_automator_modifiable (store w)))
          \<or> (\<exists>key. c = DeleteCall key
                \<and> key \<in> set (filter_automator_modifiable (store w))
                \<and> map_of (options_to_update ctx) key = None
                \<and> store_isset (store w) key
                \<and> get_last_update_channel (store w) key = Some AUTOMATOR))"
    by (simp add: sync_def w0)
  from p s show ?thesis by blast
qed


theorem every_mutation_uses_automator_channel_witness:
  "calls (sync only_a_ctx scenario_world)
     = [SetCall ''a'' (YScalar 1) False AUTOMATOR, DeleteCall ''b'']
   \<and> map_of (options_to_update only_a_ctx) ''a'' = Some (YScalar 1)
   \<and> map_of (options_to_update only_a_ctx) ''b'' = None
   \<and> get_last_update_channel (store scenario_world) ''b'' = Some AUTOMATOR"
proof -
  have run: "calls (sync only_a_ctx scenario_world)
     = [SetCall ''a'' (YScalar 1) False AUTOMATOR, DeleteCall ''b'']"
    by (simp add: scenario_defs run_defs store_defs world_defs)
  have c0: "calls scenario_world = []" by (simp add: scenario_defs)
  from every_mutation_uses_automator_channel [of only_a_ctx scenario_world]
  obtain new where new: "calls (sync only_a_ctx scenario_world) = calls scenario_world @ new"
    and ok: "\<forall>c \<in> set new.
            (\<exists>key val. c = SetCall key val False AUTOMATOR
                \<and> map_of (options_to_update only_a_ctx) key = Some val
                \<and> key \<in> set (filter_automator_modifiable (store scenario_world)))
          \<or> (\<exists>key. c = DeleteCall key
                \<and> key \<in> set (filter_automator_modifiable (store scenario_world))
                \<and> map_of (options_to_update only_a_ctx) key = None
                \<and> store_isset (store scenario_world) key
                \<and> get_last_update_channel (store scenario_world) key = Some AUTOMATOR)"
    by blast
  from new run c0 have "new = [SetCall ''a'' (YScalar 1) False AUTOMATOR, DeleteCall ''b'']"
    by simp
  then have "DeleteCall ''b'' \<in> set new" by simp
  with ok have "(\<exists>key val. DeleteCall ''b'' = SetCall key val False AUTOMATOR
                \<and> map_of (options_to_update only_a_ctx) key = Some (val :: int yaml)
                \<and> key \<in> set (filter_automator_modifiable (store scenario_world)))
          \<or> (\<exists>key. DeleteCall ''b'' = (DeleteCall key :: int yaml store_call)
                \<and> key \<in> set (filter_automator_modifiable (store scenario_world))
                \<and> map_of (options_to_update only_a_ctx) key = None
                \<and> store_isset (store scenario_world) key
                \<and> get_last_update_channel (store scenario_world) key = Some AUTOMATOR)"
    by (rule bspec)
  then have "map_of (options_to_update only_a_ctx) ''b'' = None
    \<and> get_last_update_channel (store scenario_world) ''b'' = Some AUTOMATOR"
    by auto
  moreover have "map_of (options_to_update only_a_ctx) ''a'' = Some (YScalar 1)"
    by (simp add: scenario_defs)
  ultimately show ?thesis using run by simp
qed

section \<open>Running a workflow twice\<close>












lemma announce_dry_run_store [simp]: "store (announce_dry_run dry w) = store w"
  by (simp add: announce_dry_run_def echo_def)

lemma announce_dry_run_calls [simp]: "calls (announce_dry_run dry w) = calls w"
  by (simp add: announce_dry_run_def echo_def)

lemma announce_dry_run_stdout:
  "stdout (announce_dry_run dry w) = stdout w @ (if dry then [DRY_RUN_MSG] else [])"
  by (simp add: announce_dry_run_def echo_def)





section \<open>Keys that disappear from the input of sync\<close>

lemma option_lines_disjoint:
  "k \<noteq> name \<Longrightarrow> m \<in> option_lines k \<Longrightarrow> m \<notin> option_lines name"
  by (auto simp: option_lines_def msg_defs)

lemma banner_not_option_line: "DRY_RUN_MSG \<notin> option_lines name"
  by (simp add: option_lines_def msg_defs)

lemma reconcile_msgs_lines: "set (reconcile_msgs key val D s) \<subseteq> option_lines key"
  by (simp add: reconcile_msgs_def option_lines_def split: option.splits)

lemma sync_msgs_lines: "set (sync_msgs ctx s key) \<subseteq> option_lines key"
  using reconcile_msgs_lines [of key _ "drifted_options ctx" s]
  by (auto simp: sync_msgs_def option_lines_def split: option.splits)

lemma sync_msgs_filter_other:
  "k \<noteq> name \<Longrightarrow> filter (\<lambda>m. m \<in> option_lines name) (sync_msgs ctx s k) = []"
  using sync_msgs_lines [of ctx s k] option_lines_disjoint [of k name]
  by (auto simp: filter_empty_conv)

lemma sync_msgs_filter_same:
  "filter (\<lambda>m. m \<in> option_lines name) (sync_msgs ctx s name) = sync_msgs ctx s name"
  using sync_msgs_lines [of ctx s name] by (auto simp: filter_id_conv)

lemma sync_calls_key: "c \<in> set (sync_calls ctx s k) \<Longrightarrow> call_key c = k"
  by (auto simp: sync_calls_def split: option.splits if_splits)

lemma sync_calls_filter_other:
  "k \<noteq> name \<Longrightarrow> filter (\<lambda>c. call_key c = name) (sync_calls ctx s k) = []"
  using sync_calls_key [of _ ctx s k] by (auto simp: filter_empty_conv)

lemma sync_calls_filter_same:
  "filter (\<lambda>c. call_key c = name) (sync_calls ctx s name) = sync_calls ctx s name"
  using sync_calls_key [of _ ctx s name] by (auto simp: filter_id_conv)

lemma sync_calls_local:
  "rows s1 k = rows s2 k \<Longrightarrow> default_of s1 k = default_of s2 k
   \<Longrightarrow> sync_calls ctx s1 k = sync_calls ctx s2 k"
  by (simp add: sync_calls_def store_isset_def get_last_update_channel_def
      reconcile_writes_local [of s1 k s2] split: option.splits)

lemma sync_loop_frame:
  "name \<notin> set names \<Longrightarrow>
   filter (\<lambda>m. m \<in> option_lines name) (stdout (fold (sync_option ctx) names w))
     = filter (\<lambda>m. m \<in> option_lines name) (stdout w)
   \<and> filter (\<lambda>c. call_key c = name) (calls (fold (sync_option ctx) names w))
     = filter (\<lambda>c. call_key c = name) (calls w)"
  by (induction names arbitrary: w)
     (auto simp: sync_option_stdout sync_option_calls sync_msgs_filter_other sync_calls_filter_other)

lemma sync_option_absent_row:
  "map_of (options_to_update ctx) name = None \<Longrightarrow>
   rows (store (sync_option ctx name w)) name =
     (if store_isset (store w) name \<and> get_last_update_channel (store w) name = Some AUTOMATOR
         \<and> \<not> dry_run ctx
      then None else rows (store w) name)"
  by (simp add: sync_option_def world_defs store_delete_def)

lemma sync_loop_absent_key:
  assumes "map_of (options_to_update ctx) name = None"
  shows "distinct names \<Longrightarrow> name \<in> set names \<Longrightarrow>
     rows (store (fold (sync_option ctx) names w)) name =
       (if store_isset (store w) name \<and> get_last_update_channel (store w) name = Some AUTOMATOR
           \<and> \<not> dry_run ctx
        then None else rows (store w) name)
     \<and> filter (\<lambda>m. m \<in> option_lines name) (stdout (fold (sync_option ctx) names w))
         = filter (\<lambda>m. m \<in> option_lines name) (stdout w) @ sync_msgs ctx (store w) name
     \<and> filter (\<lambda>c. call_key c = name) (calls (fold (sync_option ctx) names w))
         = filter (\<lambda>c. call_key c = name) (calls w) @ sync_calls ctx (store w) name"
proof (induction names arbitrary: w)
  case Nil
  then show ?case by simp
next
  case (Cons k names)
  let ?w1 = "sync_option ctx k w"
  show ?case
  proof (cases "k = name")
    case True
    with Cons.prems have out: "name \<notin> set names" by simp
    from sync_loop_frame [OF out, of ctx ?w1] sync_loop_rows_other [OF out, of ctx ?w1] True
    show ?thesis
      by (simp add: sync_option_absent_row [OF assms] sync_option_stdout sync_option_calls
          sync_msgs_filter_same sync_calls_filter_same)
  next
    case False
    with Cons.prems have inside: "name \<in> set names" and d: "distinct names" by auto
    from False have r: "rows (store ?w1) name = rows (store w) name"
      by (simp add: sync_option_rows_other)
    have df: "default_of (store ?w1) name = default_of (store w) name"
      by (simp add: sync_option_default_of)
    have m: "sync_msgs ctx (store ?w1) name = sync_msgs ctx (store w) name"
      by (rule sync_msgs_local [OF r df])
    have c: "sync_calls ctx (store ?w1) name = sync_calls ctx (store w) name"
      by (rule sync_calls_local [OF r df])
    have i: "store_isset (store ?w1) name = store_isset (store w) name"
      "get_last_update_channel (store ?w1) name = get_last_update_channel (store w) name"
      by (simp_all add: store_isset_def get_last_update_channel_def r)
    from Cons.IH [OF d inside, of ?w1] False show ?thesis
      by (simp add: r m c i sync_option_stdout sync_option_calls
          sync_msgs_filter_other sync_calls_filter_other)
  qed
qed

text \<open>
  C6. In \<^verbatim>\<open>sync\<close>, for an automator-modifiable key that is absent from the input
  document: if it is set and its last-update channel is the automation channel,
  the unset line is printed and, unless the run is dry, \<^verbatim>\<open>options.delete\<close> is
  called and the key is no longer set; if it is set by another channel, the
  drift line is printed and its row is untouched; if it is not set, nothing is
  printed about it and nothing is called for it. Lines and calls are those
  about this key, added to what was there before the run.
\<close>

theorem sync_absent_key:
  assumes "name \<in> set (filter_automator_modifiable (store w))"
    and "distinct (filter_automator_modifiable (store w))"
    and "name \<notin> fst ` set (options_to_update ctx)"
  shows "(store_isset (store w) name \<and> get_last_update_channel (store w) name = Some AUTOMATOR \<longrightarrow>
            filter (\<lambda>m. m \<in> option_lines name) (stdout (sync ctx w))
              = filter (\<lambda>m. m \<in> option_lines name) (stdout w) @ [UNSET_MSG name]
          \<and> (if dry_run ctx
             then rows (store (sync ctx w)) name = rows (store w) name
                \<and> filter (\<lambda>c. call_key c = name) (calls (sync ctx w))
                    = filter (\<lambda>c. call_key c = name) (calls w)
             else \<not> store_isset (store (sync ctx w)) name
                \<and> filter (\<lambda>c. call_key c = name) (calls (sync ctx w))
                    = filter (\<lambda>c. call_key c = name) (calls w) @ [DeleteCall name]))
       \<and> (store_isset (store w) name \<and> get_last_update_channel (store w) name \<noteq> Some AUTOMATOR \<longrightarrow>
            rows (store (sync ctx w)) name = rows (store w) name
          \<and> filter (\<lambda>c. call_key c = name) (calls (sync ctx w))
              = filter (\<lambda>c. call_key c = name) (calls w)
          \<and> filter (\<lambda>m. m \<in> option_lines name) (stdout (sync ctx w))
              = filter (\<lambda>m. m \<in> option_lines name) (stdout w) @ [DRIFT_MSG name])
       \<and> (\<not> store_isset (store w) name \<longrightarrow>
            rows (store (sync ctx w)) name = rows (store w) name
          \<and> filter (\<lambda>c. call_key c = name) (calls (sync ctx w))
              = filter (\<lambda>c. call_key c = name) (calls w)
          \<and> filter (\<lambda>m. m \<in> option_lines name) (stdout (sync ctx w))
              = filter (\<lambda>m. m \<in> option_lines name) (stdout w))"
proof -
  let ?w0 = "announce_dry_run (dry_run ctx) w"
  from assms(3) have absent: "map_of (options_to_update ctx) name = None"
    by (simp add: map_of_eq_None_iff)
  have out0: "filter (\<lambda>m. m \<in> option_lines name) (stdout ?w0)
      = filter (\<lambda>m. m \<in> option_lines name) (stdout w)"
    by (simp add: announce_dry_run_stdout banner_not_option_line)
  from sync_loop_absent_key [OF absent assms(2) assms(1), of ?w0] out0
  have run: "rows (store (sync ctx w)) name =
       (if store_isset (store w) name \<and> get_last_update_channel (store w) name = Some AUTOMATOR
           \<and> \<not> dry_run ctx
        then None else rows (store w) name)"
    "filter (\<lambda>m. m \<in> option_lines name) (stdout (sync ctx w))
         = filter (\<lambda>m. m \<in> option_lines name) (stdout w) @ sync_msgs ctx (store w) name"
    "filter (\<lambda>c. call_key c = name) (calls (sync ctx w))
         = filter (\<lambda>c. call_key c = name) (calls w) @ sync_calls ctx (store w) name"
    by (simp_all add: sync_def)
  from absent have msgs: "sync_msgs ctx (store w) name =
      (if store_isset (store w) name then
         if get_last_update_channel (store w) name = Some AUTOMATOR then [UNSET_MSG name]
         else [DRIFT_MSG name]
       else [])"
    by (simp add: sync_msgs_def)
  from absent have cs: "sync_calls ctx (store w) name =
      (if \<not> dry_run ctx \<and> store_isset (store w) name
          \<and> get_last_update_channel (store w) name = Some AUTOMATOR
       then [DeleteCall name] else [])"
    by (simp add: sync_calls_def)
  have after: "store_isset (store (sync ctx w)) name \<longleftrightarrow>
      store_isset (store w) name
      \<and> \<not> (get_last_update_channel (store w) name = Some AUTOMATOR \<and> \<not> dry_run ctx)"
  proof (cases "store_isset (store w) name
      \<and> get_last_update_channel (store w) name = Some AUTOMATOR \<and> \<not> dry_run ctx")
    case True
    with run(1) have "rows (store (sync ctx w)) name = None" by simp
    with True show ?thesis by (simp add: store_isset_def [of "store (sync ctx w)"])
  next
    case False
    with run(1) have "rows (store (sync ctx w)) name = rows (store w) name" by auto
    then have "store_isset (store (sync ctx w)) name = store_isset (store w) name"
      by (simp add: store_isset_def)
    with False show ?thesis by auto
  qed
  show ?thesis
    by (simp add: run msgs cs after)
qed


theorem sync_absent_key_witness:
  "''b'' \<in> set (filter_automator_modifiable (store scenario_world))
   \<and> ''c'' \<in> set (filter_automator_modifiable (store scenario_world))
   \<and> ''a'' \<in> set (filter_automator_modifiable (store scenario_world))
   \<and> distinct (filter_automator_modifiable (store scenario_world))
   \<and> ''b'' \<notin> fst ` set (options_to_update only_a_ctx)
   \<and> ''c'' \<notin> fst ` set (options_to_update only_a_ctx)
   \<and> ''a'' \<notin> fst ` set (options_to_update (only_a_ctx\<lparr>options_to_update := []\<rparr>))
   \<and> store_isset (store scenario_world) ''b''
   \<and> get_last_update_channel (store scenario_world) ''b'' = Some AUTOMATOR
   \<and> \<not> dry_run only_a_ctx
   \<and> \<not> store_isset (store (sync only_a_ctx scenario_world)) ''b''
   \<and> filter (\<lambda>c. call_key c = ''b'') (calls (sync only_a_ctx scenario_world)) = [DeleteCall ''b'']
   \<and> filter (\<lambda>m. m \<in> option_lines ''b'') (stdout (sync only_a_ctx scenario_world))
       = [UNSET_MSG ''b'']
   \<and> store_isset (store scenario_world) ''c''
   \<and> get_last_update_channel (store scenario_world) ''c'' \<noteq> Some AUTOMATOR
   \<and> rows (store (sync only_a_ctx scenario_world)) ''c'' = rows (store scenario_world) ''c''
   \<and> filter (\<lambda>c. call_key c = ''c'') (calls (sync only_a_ctx scenario_world)) = []
   \<and> filter (\<lambda>m. m \<in> option_lines ''c'') (stdout (sync only_a_ctx scenario_world))
       = [DRIFT_MSG ''c'']
   \<and> \<not> store_isset (store scenario_world) ''a''
   \<and> rows (store (sync (only_a_ctx\<lparr>options_to_update := []\<rparr>) scenario_world)) ''a''
       = rows (store scenario_world) ''a''
   \<and> filter (\<lambda>c. call_key c = ''a'')
        (calls (sync (only_a_ctx\<lparr>options_to_update := []\<rparr>) scenario_world)) = []
   \<and> filter (\<lambda>m. m \<in> option_lines ''a'')
        (stdout (sync (only_a_ctx\<lparr>options_to_update := []\<rparr>) scenario_world)) = []"
proof -
  have names: "filter_automator_modifiable (store scenario_world) = [''a'', ''b'', ''c'']"
    by (simp add: scenario_defs filter_automator_modifiable_def)
  have elig: "''b'' \<in> set (filter_automator_modifiable (store scenario_world))"
    "''c'' \<in> set (filter_automator_modifiable (store scenario_world))"
    "''a'' \<in> set (filter_automator_modifiable (store scenario_world))"
    "distinct (filter_automator_modifiable (store scenario_world))"
    by (simp_all add: names)
  have absent: "''b'' \<notin> fst ` set (options_to_update only_a_ctx)"
    "''c'' \<notin> fst ` set (options_to_update only_a_ctx)"
    "''a'' \<notin> fst ` set (options_to_update (only_a_ctx\<lparr>options_to_update := []\<rparr>))"
    by (simp_all add: scenario_defs)
  have st: "store_isset (store scenario_world) ''b''"
    "get_last_update_channel (store scenario_world) ''b'' = Some AUTOMATOR"
    "store_isset (store scenario_world) ''c''"
    "get_last_update_channel (store scenario_world) ''c'' \<noteq> Some AUTOMATOR"
    "\<not> store_isset (store scenario_world) ''a''"
    by (simp_all add: scenario_defs store_defs)
  have real: "\<not> dry_run only_a_ctx" by (simp add: scenario_defs)
  have init: "stdout scenario_world = []" "calls scenario_world = []"
    by (simp_all add: scenario_defs)
  note b = sync_absent_key [OF elig(1) elig(4) absent(1)]
  note c = sync_absent_key [OF elig(2) elig(4) absent(2)]
  note a = sync_absent_key [OF elig(3) elig(4) absent(3)]
  from b st(1,2) real init
  have rb: "\<not> store_isset (store (sync only_a_ctx scenario_world)) ''b''"
    "filter (\<lambda>c. call_key c = ''b'') (calls (sync only_a_ctx scenario_world)) = [DeleteCall ''b'']"
    "filter (\<lambda>m. m \<in> option_lines ''b'') (stdout (sync only_a_ctx scenario_world))
       = [UNSET_MSG ''b'']"
    by simp_all
  from c st(3,4) init
  have rc: "rows (store (sync only_a_ctx scenario_world)) ''c'' = rows (store scenario_world) ''c''"
    "filter (\<lambda>c. call_key c = ''c'') (calls (sync only_a_ctx scenario_world)) = []"
    "filter (\<lambda>m. m \<in> option_lines ''c'') (stdout (sync only_a_ctx scenario_world))
       = [DRIFT_MSG ''c'']"
    by simp_all
  from a st(5) init
  have ra: "rows (store (sync (only_a_ctx\<lparr>options_to_update := []\<rparr>) scenario_world)) ''a''
       = rows (store scenario_world) ''a''"
    "filter (\<lambda>c. call_key c = ''a'')
        (calls (sync (only_a_ctx\<lparr>options_to_update := []\<rparr>) scenario_world)) = []"
    "filter (\<lambda>m. m \<in> option_lines ''a'')
        (stdout (sync (only_a_ctx\<lparr>options_to_update := []\<rparr>) scenario_world)) = []"
    by simp_all
  from elig absent st real rb rc ra show ?thesis by blast
qed

end
